theory Spec2Isabelle
  imports Complex_Main "HOL-Library.AList"
begin

section \<open>Configuration values and objects\<close>

text \<open>
  The store of \<^verbatim>\<open>src/extension-dl/src/config.ts\<close>. A \<^verbatim>\<open>ConfigData\<close> is a string, a boolean or
  a number. Numbers are only ever compared by the store, so a finite number is represented
  by the rational it denotes (the two zeros coincide, as they do under \<^verbatim>\<open>===\<close>); the
  infinities and \<^verbatim>\<open>NaN\<close> are separate values because \<^verbatim>\<open>NaN !== NaN\<close>.
\<close>

datatype number = Finite rat | PosInfinity | NegInfinity | NaN

datatype ConfigData = CString string | CBoolean bool | CNumber number

text \<open>
  A \<^verbatim>\<open>ConfigObject\<close> is an object used as a dictionary. It is listed in the order in which
  \<^verbatim>\<open>Object.keys\<close> enumerates it; reading a property is \<open>map_of\<close>, where \<open>None\<close> stands
  for \<^verbatim>\<open>undefined\<close>. Property reads are modelled on the object's own properties: names
  that a plain object inherits from its prototype (such as \<^verbatim>\<open>toString\<close>) are not
  configuration keys and lie outside the model.
\<close>

type_synonym ConfigObject = "(string \<times> ConfigData) list"

definition Object_keys :: "ConfigObject \<Rightarrow> string list" where
  "Object_keys obj = map fst obj"

definition defaultConfig :: ConfigObject where
  "defaultConfig = [(''vodDownload'', CBoolean False), (''clipDownload'', CBoolean True)]"

text \<open>Strict equality \<^verbatim>\<open>===\<close> on the values a property read can give.\<close>

fun strict_eq :: "ConfigData option \<Rightarrow> ConfigData option \<Rightarrow> bool" where
  "strict_eq None None = True"
| "strict_eq (Some (CString a)) (Some (CString b)) = (a = b)"
| "strict_eq (Some (CBoolean a)) (Some (CBoolean b)) = (a = b)"
| "strict_eq (Some (CNumber a)) (Some (CNumber b)) = (a \<noteq> NaN \<and> a = b)"
| "strict_eq _ _ = False"

definition strict_neq :: "ConfigData option \<Rightarrow> ConfigData option \<Rightarrow> bool" where
  "strict_neq a b = (\<not> strict_eq a b)"

text \<open>
  \<^verbatim>\<open>new Set(iterable)\<close> adds the elements one by one and keeps the first occurrence of
  each; \<^verbatim>\<open>Array.from\<close> lists the set in insertion order.
\<close>

definition Set_add :: "'a list \<Rightarrow> 'a \<Rightarrow> 'a list" where
  "Set_add s x = (if x \<in> set s then s else s @ [x])"

definition new_Set :: "'a list \<Rightarrow> 'a list" where
  "new_Set xs = foldl Set_add [] xs"

text \<open>
  The diff of both synchronisation paths (lines 130-136, 153-159 and 174-180):
  \<^verbatim>\<open>Array.from(new Set([...Object.keys(newConfig), ...Object.keys(oldConfig)]))
     .filter((key) => newConfig[key] !== oldConfig[key])\<close>.
\<close>

definition diffs_cfg :: "ConfigObject \<Rightarrow> ConfigObject \<Rightarrow> string list" where
  "diffs_cfg newConfig oldConfig =
     filter (\<lambda>key. strict_neq (map_of newConfig key) (map_of oldConfig key))
       (new_Set (Object_keys newConfig @ Object_keys oldConfig))"

section \<open>Listeners and the store\<close>

text \<open>
  Listeners are function objects, compared by reference (\<^verbatim>\<open>!==\<close>), so a listener is the
  reference of its function. A condition carries, besides its reference, the predicate
  it computes on the list of changed keys. Callbacks are opaque to the store: a call is
  recorded in the list of effects an operation returns. Callbacks are taken to return
  normally and not to call back into the store while it notifies.
\<close>

type_synonym Listener = nat
type_synonym AnyListener = nat

datatype CoditionListener = CoditionListener (ref: nat) (holds: "string list \<Rightarrow> bool")

datatype effect =
    is_KeyCall: KeyCall Listener string "ConfigData option"
  | is_AnyCall: AnyCall AnyListener
  | is_ConditionCall: ConditionCall AnyListener
  | WindowConfig ConfigObject
  | DispatchEvent string
  | MainCall

record ConfigInstance =
  config :: ConfigObject
  listeners :: "string \<rightharpoonup> Listener list"
  anyListeners :: "AnyListener list"
  conditionListeners :: "(CoditionListener \<times> AnyListener) list"

text \<open>The fields as the class initialises them (lines 17, 59, 80 and 113).\<close>

definition new_ConfigInstance :: ConfigInstance where
  "new_ConfigInstance =
     \<lparr>config = [], listeners = Map.empty, anyListeners = [], conditionListeners = []\<rparr>"

text \<open>
  \<^verbatim>\<open>get\<close> returns a value of the caller's type \<^verbatim>\<open>T\<close>: the default it was given
  (\<open>Undefined\<close> when none was) or the stored value. \<open>get_of\<close> is its body on the value of
  \<^verbatim>\<open>this.config\<close>. The field's type makes that an object; were the reference null or
  undefined at run time, the property read would throw a \<^verbatim>\<open>TypeError\<close>, which the
  \<^verbatim>\<open>catch\<close> branch turns into the default.
\<close>

datatype 'd jsvalue = Data ConfigData | Other 'd | Undefined

definition get_of :: "ConfigObject option \<Rightarrow> string \<Rightarrow> 'd jsvalue \<Rightarrow> 'd jsvalue" where
  "get_of obj key defaultValue =
     (case obj of
        None \<Rightarrow> defaultValue
      | Some cfg \<Rightarrow> (case map_of cfg key of None \<Rightarrow> defaultValue | Some v \<Rightarrow> Data v))"

definition get :: "string \<Rightarrow> 'd jsvalue \<Rightarrow> ConfigInstance \<Rightarrow> 'd jsvalue" where
  "get key defaultValue s = get_of (Some (config s)) key defaultValue"

definition emit :: "string \<Rightarrow> ConfigData option \<Rightarrow> ConfigInstance \<Rightarrow> effect list" where
  "emit key newData s =
     (case listeners s key of
        None \<Rightarrow> []
      | Some ls \<Rightarrow> map (\<lambda>l. KeyCall l key newData) ls)"

definition emitAny :: "ConfigInstance \<Rightarrow> effect list" where
  "emitAny s = map AnyCall (anyListeners s)"

definition emitCondition :: "string list \<Rightarrow> ConfigInstance \<Rightarrow> effect list" where
  "emitCondition changes s =
     concat (map (\<lambda>(c, l). if holds c changes then [ConditionCall l] else [])
               (conditionListeners s))"


definition load :: "ConfigObject \<Rightarrow> ConfigInstance \<Rightarrow> ConfigInstance \<times> effect list" where
  "load cfg s = (let s' = s\<lparr>config := cfg\<rparr> in (s', emitAny s'))"

text \<open>
  \<^verbatim>\<open>loadFromStorage\<close>, given what the backend holds under \<^verbatim>\<open>config\<close>
  (\<^verbatim>\<open>result.config || defaultConfig\<close>: an object is truthy, also an empty one).
\<close>

definition loadFromStorage :: "ConfigObject option \<Rightarrow> ConfigInstance \<Rightarrow> ConfigInstance" where
  "loadFromStorage stored s =
     s\<lparr>config := (case stored of None \<Rightarrow> defaultConfig | Some c \<Rightarrow> c)\<rparr>"

definition addListener :: "string \<Rightarrow> Listener \<Rightarrow> ConfigInstance \<Rightarrow> ConfigInstance" where
  "addListener key listener s =
     (let s1 = (if listeners s key = None then s\<lparr>listeners := (listeners s)(key \<mapsto> [])\<rparr> else s)
      in case listeners s1 key of
           None \<Rightarrow> s1
         | Some ls \<Rightarrow> s1\<lparr>listeners := (listeners s1)(key \<mapsto> ls @ [listener])\<rparr>)"

definition removeListener :: "string \<Rightarrow> Listener \<Rightarrow> ConfigInstance \<Rightarrow> ConfigInstance" where
  "removeListener key listener s =
     (case listeners s key of
        None \<Rightarrow> s
      | Some ls \<Rightarrow> s\<lparr>listeners := (listeners s)(key \<mapsto> filter (\<lambda>l. l \<noteq> listener) ls)\<rparr>)"

definition addAnyListener :: "AnyListener \<Rightarrow> ConfigInstance \<Rightarrow> ConfigInstance" where
  "addAnyListener listener s = s\<lparr>anyListeners := anyListeners s @ [listener]\<rparr>"

definition removeAnyListener :: "AnyListener \<Rightarrow> ConfigInstance \<Rightarrow> ConfigInstance" where
  "removeAnyListener listener s =
     s\<lparr>anyListeners := filter (\<lambda>l. l \<noteq> listener) (anyListeners s)\<rparr>"

definition addConditionListener ::
  "CoditionListener \<Rightarrow> AnyListener \<Rightarrow> ConfigInstance \<Rightarrow> ConfigInstance" where
  "addConditionListener condition listener s =
     s\<lparr>conditionListeners := conditionListeners s @ [(condition, listener)]\<rparr>"

text \<open>
  Line 98 keeps an entry when \<^verbatim>\<open>c !== condition && l !== listener\<close>: both of its
  components must differ from the arguments.
\<close>

definition removeConditionListener ::
  "CoditionListener \<Rightarrow> AnyListener \<Rightarrow> ConfigInstance \<Rightarrow> ConfigInstance" where
  "removeConditionListener condition listener s =
     s\<lparr>conditionListeners :=
         filter (\<lambda>(c, l). ref c \<noteq> ref condition \<and> l \<noteq> listener) (conditionListeners s)\<rparr>"

section \<open>Event-driven synchronisation\<close>

text \<open>
  The handler the constructor subscribes to \<^verbatim>\<open>chrome.storage.onChanged\<close> (lines 124-145).
  A notification maps each changed storage key to its change; \<^verbatim>\<open>newValue\<close> is absent
  when the entry was removed, and \<^verbatim>\<open>Object.keys(undefined)\<close> throws.
\<close>

datatype error = TypeError

record StorageChange =
  oldValue :: "ConfigObject option"
  newValue :: "ConfigObject option"

type_synonym changes = "(string \<times> StorageChange) list"

text \<open>The body of the \<^verbatim>\<open>if (key == "config")\<close> block, for a present \<^verbatim>\<open>newValue\<close>.\<close>

definition onChanged_config :: "ConfigObject \<Rightarrow> ConfigInstance \<Rightarrow> ConfigInstance \<times> effect list" where
  "onChanged_config newConfig s =
     (let oldConfig = config s;
          ds = diffs_cfg newConfig oldConfig;
          keyCalls = concat (map (\<lambda>key. emit key (map_of newConfig key) s) ds);
          s' = s\<lparr>config := newConfig\<rparr>
      in (s', keyCalls @ emitAny s' @ emitCondition ds s'))"

text \<open>The loop \<^verbatim>\<open>for (const key in changes)\<close>, over the keys still to visit.\<close>

fun onChanged_loop ::
  "string list \<Rightarrow> changes \<Rightarrow> ConfigInstance \<times> effect list \<Rightarrow> error + ConfigInstance \<times> effect list" where
  "onChanged_loop [] ch st = Inr st"
| "onChanged_loop (key # ks) ch (s, tr) =
     (if key = ''config'' then
        (case map_of ch ''config'' of
           None \<Rightarrow> Inl TypeError
         | Some c \<Rightarrow>
             (case newValue c of
                None \<Rightarrow> Inl TypeError
              | Some newConfig \<Rightarrow>
                  (let (s', t) = onChanged_config newConfig s
                   in onChanged_loop ks ch (s', tr @ t))))
      else onChanged_loop ks ch (s, tr))"

definition onChanged :: "changes \<Rightarrow> ConfigInstance \<Rightarrow> error + ConfigInstance \<times> effect list" where
  "onChanged ch s = onChanged_loop (map fst ch) ch (s, [])"

section \<open>Polled synchronisation\<close>

text \<open>
  One tick of the timers of \<^verbatim>\<open>syncConfig\<close> (lines 149-166) and
  \<^verbatim>\<open>syncConfigBackground\<close> (lines 170-186), from the point where the fetch has
  delivered the snapshot \<^verbatim>\<open>config\<close>; the rest of the tick runs without interruption.
\<close>

definition syncConfig_tick :: "ConfigObject \<Rightarrow> ConfigInstance \<Rightarrow> ConfigInstance \<times> effect list" where
  "syncConfig_tick cfg s =
     (let ds = diffs_cfg cfg (config s)
      in if length ds = 0 then (s, [])
         else (let t1 = emitCondition ds s;
                   (s', t2) = load cfg s
               in (s', t1 @ t2 @ [WindowConfig cfg, DispatchEvent ''chzzkExtConfig''])))"

definition syncConfigBackground_tick ::
  "ConfigObject \<Rightarrow> ConfigInstance \<Rightarrow> ConfigInstance \<times> effect list" where
  "syncConfigBackground_tick cfg s =
     (let ds = diffs_cfg cfg (config s)
      in if length ds = 0 then (s, [])
         else (let t1 = emitCondition ds s;
                   (s', t2) = load cfg s
               in (s', t1 @ t2 @ [MainCall])))"

section \<open>Reading the effects of an operation\<close>

text \<open>The listeners registered for a key: none when the key has no list yet.\<close>

definition registered :: "ConfigInstance \<Rightarrow> string \<Rightarrow> Listener list" where
  "registered s key = (case listeners s key of None \<Rightarrow> [] | Some ls \<Rightarrow> ls)"


section \<open>Concrete inputs\<close>

text \<open>The two snapshots \<^verbatim>\<open>{a:1, b:2}\<close> and \<^verbatim>\<open>{a:1, b:3, c:4}\<close>.\<close>

definition example_old :: ConfigObject where
  "example_old = [(''a'', CNumber (Finite 1)), (''b'', CNumber (Finite 2))]"

definition example_new :: ConfigObject where
  "example_new =
     [(''a'', CNumber (Finite 1)), (''b'', CNumber (Finite 3)), (''c'', CNumber (Finite 4))]"

text \<open>
  A store holding \<^verbatim>\<open>{a:1, b:2}\<close> with two listeners for \<^verbatim>\<open>b\<close>, one for \<^verbatim>\<open>a\<close>, two
  any-listeners and two condition listeners: one whose predicate asks for \<^verbatim>\<open>b\<close> among the
  changed keys, one whose predicate never holds.
\<close>

definition cond_b :: CoditionListener where
  "cond_b = CoditionListener 6 (\<lambda>changes. ''b'' \<in> set changes)"

definition cond_never :: CoditionListener where
  "cond_never = CoditionListener 8 (\<lambda>changes. False)"

definition example_store :: ConfigInstance where
  "example_store =
     \<lparr>config = example_old,
      listeners = [''b'' \<mapsto> [1, 2], ''a'' \<mapsto> [3]],
      anyListeners = [4, 5],
      conditionListeners = [(cond_b, 7), (cond_never, 9)]\<rparr>"

text \<open>
  Three notifications: one that carries the new snapshot beside another changed entry, one
  that carries the snapshot the store already holds, one without the \<^verbatim>\<open>config\<close> entry.
\<close>

definition example_changes :: changes where
  "example_changes =
     [(''other'', \<lparr>oldValue = None, newValue = None\<rparr>),
      (''config'', \<lparr>oldValue = Some example_old, newValue = Some example_new\<rparr>)]"


definition example_other_changes :: changes where
  "example_other_changes =
     [(''token'', \<lparr>oldValue = None, newValue = None\<rparr>)]"

section \<open>The diff\<close>

lemma set_foldl_Set_add: "set (foldl Set_add acc xs) = set acc \<union> set xs"
  by (induction xs arbitrary: acc) (auto simp: Set_add_def)

lemma distinct_foldl_Set_add: "distinct acc \<Longrightarrow> distinct (foldl Set_add acc xs)"
  by (induction xs arbitrary: acc) (auto simp: Set_add_def)

lemma set_new_Set: "set (new_Set xs) = set xs"
  by (simp add: new_Set_def set_foldl_Set_add)

lemma distinct_new_Set: "distinct (new_Set xs)"
  by (simp add: new_Set_def distinct_foldl_Set_add)

lemma strict_eq_sym: "strict_eq a b = strict_eq b a"
  by (induction a b rule: strict_eq.induct) auto

lemma strict_neq_sym: "strict_neq a b = strict_neq b a"
  by (simp add: strict_neq_def strict_eq_sym)

lemma map_of_absent: "k \<notin> set (Object_keys m) \<Longrightarrow> map_of m k = None"
  by (simp add: Object_keys_def map_of_eq_None_iff)

lemma strict_neq_undefined: "strict_neq (Some v) None" "strict_neq None (Some v)"
  by (cases v; simp add: strict_neq_def)+

lemma set_diffs_cfg:
  "set (diffs_cfg newConfig oldConfig) =
     {k \<in> set (Object_keys newConfig) \<union> set (Object_keys oldConfig).
        strict_neq (map_of newConfig k) (map_of oldConfig k)}"
  by (auto simp: diffs_cfg_def set_new_Set)

text \<open>A key of neither object reads \<^verbatim>\<open>undefined\<close> in both, so the union is no restriction.\<close>

lemma set_diffs_cfg_all:
  "set (diffs_cfg newConfig oldConfig) =
     {k. strict_neq (map_of newConfig k) (map_of oldConfig k)}"
proof -
  have "k \<in> set (Object_keys newConfig) \<union> set (Object_keys oldConfig)"
    if "strict_neq (map_of newConfig k) (map_of oldConfig k)" for k
  proof (rule ccontr)
    assume "\<not> ?thesis"
    then have "map_of newConfig k = None" "map_of oldConfig k = None"
      by (simp_all add: map_of_absent)
    with that show False by (simp add: strict_neq_def)
  qed
  then show ?thesis unfolding set_diffs_cfg by blast
qed

lemma distinct_diffs_cfg: "distinct (diffs_cfg newConfig oldConfig)"
  by (simp add: diffs_cfg_def distinct_new_Set)

lemma one_sided_key_changed:
  assumes "(k \<in> set (Object_keys newConfig)) \<noteq> (k \<in> set (Object_keys oldConfig))"
  shows "k \<in> set (diffs_cfg newConfig oldConfig)"
proof (cases "k \<in> set (Object_keys newConfig)")
  case True
  with assms have "map_of oldConfig k = None" by (simp add: map_of_absent)
  moreover from True obtain v where "map_of newConfig k = Some v"
    by (cases "map_of newConfig k") (auto simp: Object_keys_def map_of_eq_None_iff)
  ultimately show ?thesis by (simp add: set_diffs_cfg_all strict_neq_undefined)
next
  case False
  then have "map_of newConfig k = None" by (simp add: map_of_absent)
  moreover from False assms obtain v where "map_of oldConfig k = Some v"
    by (cases "map_of oldConfig k") (auto simp: Object_keys_def map_of_eq_None_iff)
  ultimately show ?thesis by (simp add: set_diffs_cfg_all strict_neq_undefined)
qed

lemma diffs_cfg_example: "diffs_cfg example_new example_old = [''b'', ''c'']"
  by (simp add: example_new_def example_old_def diffs_cfg_def new_Set_def Set_add_def
      Object_keys_def strict_neq_def)

text \<open>
  Claim C1. The list of changed keys that both synchronisation paths compute holds, without
  repetition, exactly the keys of the union of the two objects' key sets at which the new
  and the old object differ under \<^verbatim>\<open>!==\<close>; a key that only one of the objects has is among
  them; and for the old object \<^verbatim>\<open>{a:1, b:2}\<close> and the new object \<^verbatim>\<open>{a:1, b:3, c:4}\<close> the
  changed keys are \<^verbatim>\<open>b\<close> and \<^verbatim>\<open>c\<close>.
\<close>

theorem diffs_cfg_is_changed_key_set:
  "set (diffs_cfg newConfig oldConfig) =
     {k \<in> set (Object_keys newConfig) \<union> set (Object_keys oldConfig).
        strict_neq (map_of newConfig k) (map_of oldConfig k)}
   \<and> distinct (diffs_cfg newConfig oldConfig)
   \<and> ((k \<in> set (Object_keys newConfig)) \<noteq> (k \<in> set (Object_keys oldConfig))
        \<longrightarrow> k \<in> set (diffs_cfg newConfig oldConfig))
   \<and> set (diffs_cfg example_new example_old) = {''b'', ''c''}"
  using set_diffs_cfg [of newConfig oldConfig] distinct_diffs_cfg [of newConfig oldConfig]
    one_sided_key_changed [of k newConfig oldConfig] diffs_cfg_example
  by simp

theorem diffs_cfg_is_changed_key_set_witness:
  "(''c'' \<in> set (Object_keys example_new)) \<noteq> (''c'' \<in> set (Object_keys example_old))
   \<and> ''c'' \<in> set (diffs_cfg example_new example_old)
   \<and> ''a'' \<notin> set (diffs_cfg example_new example_old)"
proof -
  have h: "(''c'' \<in> set (Object_keys example_new)) \<noteq> (''c'' \<in> set (Object_keys example_old))"
    by (simp add: Object_keys_def example_new_def example_old_def)
  have "set (diffs_cfg example_new example_old) = {''b'', ''c''}"
    using diffs_cfg_is_changed_key_set [of example_new example_old "''c''"] by blast
  then show ?thesis using h by simp
qed

text \<open>
  Claim C9. The diff is symmetric: exchanging the two objects gives the same set of
  changed keys.
\<close>

theorem diffs_cfg_symmetric: "set (diffs_cfg m1 m2) = set (diffs_cfg m2 m1)"
  unfolding set_diffs_cfg_all by (simp add: strict_neq_sym)

section \<open>What each operation calls\<close>

lemma emit_registered: "emit key v s = map (\<lambda>l. KeyCall l key v) (registered s key)"
  by (simp add: emit_def registered_def split: option.split)














section \<open>The notification handler\<close>

text \<open>
  The loop visits the keys of the notification; only the key \<^verbatim>\<open>config\<close> has a body. The
  property names of an object are distinct, so the body runs at most once.
\<close>

lemma onChanged_loop_other:
  "''config'' \<notin> set ks \<Longrightarrow> onChanged_loop ks ch st = Inr st"
proof (induction ks)
  case Nil
  then show ?case by simp
next
  case (Cons k ks)
  then show ?case by (cases st) auto
qed

lemma onChanged_loop_config:
  assumes "map_of ch ''config'' = Some c" and "newValue c = Some newConfig"
  shows "distinct ks \<Longrightarrow> ''config'' \<in> set ks \<Longrightarrow>
         onChanged_loop ks ch (s, tr) =
           Inr (fst (onChanged_config newConfig s), tr @ snd (onChanged_config newConfig s))"
proof (induction ks)
  case Nil
  then show ?case by simp
next
  case (Cons k ks)
  show ?case
  proof (cases "k = ''config''")
    case True
    with Cons.prems have "''config'' \<notin> set ks" by simp
    then show ?thesis
      using True assms by (simp add: onChanged_loop_other split: prod.split)
  next
    case False
    with Cons show ?thesis by simp
  qed
qed

lemma onChanged_cycle:
  assumes "distinct (map fst ch)" and "map_of ch ''config'' = Some c"
    and "newValue c = Some newConfig"
  shows "onChanged ch s = Inr (onChanged_config newConfig s)"
proof -
  from assms(2) have "''config'' \<in> set (map fst ch)"
    by (cases "''config'' \<in> fst ` set ch") (simp_all add: map_of_eq_None_iff [symmetric])
  with assms show ?thesis
    by (simp add: onChanged_def onChanged_loop_config [where tr = "[]", simplified])
qed

lemma onChanged_no_config:
  "''config'' \<notin> fst ` set ch \<Longrightarrow> onChanged ch s = Inr (s, [])"
  by (simp add: onChanged_def onChanged_loop_other)

lemma onChanged_config_state:
  "fst (onChanged_config newConfig s) = s\<lparr>config := newConfig\<rparr>"
  by (simp add: onChanged_config_def Let_def)

lemma onChanged_config_trace:
  "snd (onChanged_config newConfig s) =
     concat (map (\<lambda>key. emit key (map_of newConfig key) s) (diffs_cfg newConfig (config s)))
     @ emitAny s @ emitCondition (diffs_cfg newConfig (config s)) s"
  by (simp add: onChanged_config_def Let_def emitAny_def emitCondition_def)



section \<open>The concrete inputs evaluated\<close>

lemma example_hyps:
  "distinct (map fst example_changes)"
  "map_of example_changes ''config'' = Some \<lparr>oldValue = Some example_old, newValue = Some example_new\<rparr>"
  by (simp_all add: example_changes_def)

lemma example_diffs: "diffs_cfg example_new (config example_store) = [''b'', ''c'']"
  by (simp add: example_store_def diffs_cfg_example)

lemma example_same_diffs: "diffs_cfg example_old (config example_store) = []"
  by (simp add: example_store_def example_old_def diffs_cfg_def new_Set_def Set_add_def
      Object_keys_def strict_neq_def)

lemma example_registered:
  "registered example_store ''b'' = [1, 2]"
  "registered example_store ''c'' = []"
  "anyListeners example_store = [4, 5]"
  by (simp_all add: registered_def example_store_def)

lemma example_conditions:
  "emitCondition [''b'', ''c''] example_store = [ConditionCall 7]"
  "emitCondition [] example_store = []"
  by (simp_all add: emitCondition_def example_store_def cond_b_def cond_never_def)

theorem event_sync_example_trace:
  "onChanged example_changes example_store =
     Inr (example_store\<lparr>config := example_new\<rparr>,
          [KeyCall 1 ''b'' (Some (CNumber (Finite 3))),
           KeyCall 2 ''b'' (Some (CNumber (Finite 3))),
           AnyCall 4, AnyCall 5, ConditionCall 7])"
proof -
  have "onChanged example_changes example_store =
      Inr (onChanged_config example_new example_store)"
    by (rule onChanged_cycle [OF example_hyps]) simp
  moreover have v: "map_of example_new ''b'' = Some (CNumber (Finite 3))"
    by (simp add: example_new_def)
  have "snd (onChanged_config example_new example_store) =
      [KeyCall 1 ''b'' (Some (CNumber (Finite 3))), KeyCall 2 ''b'' (Some (CNumber (Finite 3))),
       AnyCall 4, AnyCall 5, ConditionCall 7]"
    by (simp add: onChanged_config_trace example_diffs example_conditions emitAny_def
        example_registered emit_registered v)
  ultimately show ?thesis
    by (simp add: prod_eq_iff onChanged_config_state)
qed

section \<open>Local writes and reads\<close>


lemma get_total:
  "get k d s = (case map_of (config s) k of None \<Rightarrow> d | Some v \<Rightarrow> Data v)"
  by (simp add: get_def get_of_def)





section \<open>Event-driven synchronisation: what is called, and in which order\<close>










text \<open>
  Claim C10. A notification without the entry \<^verbatim>\<open>config\<close> calls no listener and leaves the
  store as it is; and a notification with that entry is handled as if it had no other
  entry.
\<close>

theorem onChanged_without_config:
  "(''config'' \<notin> fst ` set ch \<longrightarrow> onChanged ch s = Inr (s, []))
   \<and> (distinct (map fst ch) \<and> map_of ch ''config'' = Some c \<and> newValue c = Some newConfig
        \<longrightarrow> onChanged ch s = onChanged [(''config'', c)] s)"
proof -
  have "onChanged ch s = onChanged [(''config'', c)] s"
    if "distinct (map fst ch)" "map_of ch ''config'' = Some c" "newValue c = Some newConfig"
  proof -
    have "onChanged [(''config'', c)] s = Inr (onChanged_config newConfig s)"
      by (rule onChanged_cycle [where c = c]) (simp_all add: that)
    then show ?thesis using onChanged_cycle [OF that] by simp
  qed
  then show ?thesis using onChanged_no_config [of ch s] by blast
qed

theorem onChanged_without_config_witness:
  "''config'' \<notin> fst ` set example_other_changes
   \<and> onChanged example_other_changes example_store = Inr (example_store, [])
   \<and> distinct (map fst example_changes)
   \<and> map_of example_changes ''config'' =
       Some \<lparr>oldValue = Some example_old, newValue = Some example_new\<rparr>
   \<and> onChanged example_changes example_store =
       onChanged [(''config'', \<lparr>oldValue = Some example_old, newValue = Some example_new\<rparr>)]
         example_store"
proof -
  have h: "''config'' \<notin> fst ` set example_other_changes"
    by (simp add: example_other_changes_def)
  from onChanged_without_config [of example_other_changes example_store
      "\<lparr>oldValue = None, newValue = None\<rparr>" example_new] h
  have "onChanged example_other_changes example_store = Inr (example_store, [])" by blast
  moreover
  from onChanged_without_config [of example_changes example_store
      "\<lparr>oldValue = Some example_old, newValue = Some example_new\<rparr>" example_new]
  have "onChanged example_changes example_store =
       onChanged [(''config'', \<lparr>oldValue = Some example_old, newValue = Some example_new\<rparr>)]
         example_store"
    by (simp add: example_hyps)
  ultimately show ?thesis using h by (simp add: example_hyps)
qed

section \<open>Polled synchronisation with nothing to do\<close>

text \<open>
  Claim C6. A polled tick, of either timer, whose fetched snapshot gives an empty batch
  against the current object returns the store unchanged and calls nothing.
\<close>

theorem polled_empty_batch_is_noop:
  "diffs_cfg cfg (config s) = [] \<Longrightarrow>
   syncConfig_tick cfg s = (s, []) \<and> syncConfigBackground_tick cfg s = (s, [])"
  by (simp add: syncConfig_tick_def syncConfigBackground_tick_def)

theorem polled_empty_batch_is_noop_witness:
  "diffs_cfg example_old (config example_store) = []
   \<and> syncConfig_tick example_old example_store = (example_store, [])
   \<and> syncConfigBackground_tick example_old example_store = (example_store, [])"
  using polled_empty_batch_is_noop [OF example_same_diffs] example_same_diffs by simp

section \<open>Removing listeners\<close>

text \<open>
  \<^verbatim>\<open>removeListener\<close> and \<^verbatim>\<open>removeAnyListener\<close> drop the entries equal to their argument
  and nothing else; with a listener that is not registered they leave the store as it is.
  \<^verbatim>\<open>removeConditionListener\<close> leaves the store as it is when neither the condition nor the
  callback occurs in any entry.
\<close>

lemma removeListener_listeners:
  "registered (removeListener key listener s) key' =
     (if key' = key then filter (\<lambda>l. l \<noteq> listener) (registered s key) else registered s key')"
  by (cases "listeners s key") (simp_all add: removeListener_def registered_def)

lemma removeListener_frame:
  "config (removeListener key listener s) = config s"
  "anyListeners (removeListener key listener s) = anyListeners s"
  "conditionListeners (removeListener key listener s) = conditionListeners s"
  by (cases "listeners s key"; simp add: removeListener_def)+

lemma removeListener_unregistered:
  "removeListener key listener s = s" if "listener \<notin> set (registered s key)"
proof (cases "listeners s key")
  case None
  then show ?thesis by (simp add: removeListener_def)
next
  case (Some ls)
  with that have "filter (\<lambda>l. l \<noteq> listener) ls = ls"
    by (auto simp: registered_def intro: filter_True)
  moreover from Some have "(listeners s)(key \<mapsto> ls) = listeners s"
    by (rule map_upd_triv)
  ultimately show ?thesis using Some by (simp add: removeListener_def)
qed

lemma removeAnyListener_unregistered:
  "removeAnyListener listener s = s" if "listener \<notin> set (anyListeners s)"
proof -
  from that have "filter (\<lambda>l. l \<noteq> listener) (anyListeners s) = anyListeners s"
    by (auto intro: filter_True)
  then show ?thesis by (simp add: removeAnyListener_def)
qed

lemma filter_conditions_unregistered:
  "r \<notin> set (map (\<lambda>(c, l). ref c) cl) \<Longrightarrow> listener \<notin> set (map snd cl) \<Longrightarrow>
   filter (\<lambda>(c, l). ref c \<noteq> r \<and> l \<noteq> listener) cl = cl"
  by (induction cl) auto

lemma removeConditionListener_unregistered:
  "removeConditionListener condition listener s = s"
  if "ref condition \<notin> set (map (\<lambda>(c, l). ref c) (conditionListeners s))"
    and "listener \<notin> set (map snd (conditionListeners s))"
  using that by (simp add: removeConditionListener_def filter_conditions_unregistered)

text \<open>
  Claim C8. The registry holds the pairs (condition 6, callback 7) and (condition 8,
  callback 9); the pair (condition 6, callback 9) was never added. Removing it drops both
  entries, since each agrees with the arguments in one component.
\<close>

theorem removeConditionListener_drops_partial_matches:
  "(ref cond_b, 9) \<notin> set (map (\<lambda>(c, l). (ref c, l)) (conditionListeners example_store))
   \<and> map (\<lambda>(c, l). (ref c, l)) (conditionListeners example_store) = [(6, 7), (8, 9)]
   \<and> conditionListeners (removeConditionListener cond_b 9 example_store) = []"
  by (simp add: removeConditionListener_def example_store_def cond_b_def cond_never_def)

end
